theory Spec2Isabelle
  imports Complex_Main "HOL-Library.Multiset"
begin

section \<open>Batch model (pkg/models/logs.go)\<close>

text \<open>
  A Go \<^verbatim>\<open>interface{}\<close> value is a dynamically typed value. The only dynamic type the
  dispatch engine ever inspects is \<^verbatim>\<open>int\<close> (the type assertion in \<^verbatim>\<open>retryWorker\<close>), so
  a dynamic value is either an \<^verbatim>\<open>int\<close> or a value of some other dynamic type (float64,
  string, bool, nil, nested containers), kept abstract in the type parameter.
\<close>

datatype 'v any = IntVal int | OtherVal 'v

text \<open>A Go map that may be nil: \<open>None\<close> is the nil map, \<open>Some m\<close> an allocated one.\<close>

type_synonym 'v metadata = "(string \<rightharpoonup> 'v any) option"

record 'v LogMessage =
  MsgID :: string
  Timestamp :: int
  Level :: string
  Source :: string
  Message :: string
  MsgMetadata :: "'v metadata"

record 'v LogPacket =
  PacketID :: string
  AgentID :: string
  SentAt :: int
  ReceivedAt :: int
  LogMessages :: "'v LogMessage list"
  Metadata :: "'v metadata"

section \<open>Analyzer pool (pkg/analyzer)\<close>

text \<open>
  Weights and the cached total are \<^verbatim>\<open>float64\<close> in the source. They are modelled as
  real numbers: sums and comparisons are exact. Every concrete input used below
  (weights 0, 1, 2, 3 and the draw 0 or 1/2) is exactly representable, and float64
  arithmetic on it agrees with the real arithmetic.
\<close>

record Analyzer =
  ID :: string
  URL :: string
  Weight :: real
  Active :: bool

text \<open>
  The pool's lock serialises its operations, so each is a function on the pool; its
  HTTP client is the environment (see below).
\<close>

record AnalyzerPool =
  analyzers :: "Analyzer list"
  totalWeight :: real
  healthCheckInterval :: int

definition NewAnalyzerPool :: "int \<Rightarrow> AnalyzerPool" where
  "NewAnalyzerPool interval =
     \<lparr>analyzers = [], totalWeight = 0, healthCheckInterval = interval\<rparr>"

text \<open>The loop of \<^verbatim>\<open>recalculateTotalWeight\<close>: \<open>tot\<close> is the accumulator \<^verbatim>\<open>total\<close>.\<close>

fun recalcLoop :: "Analyzer list \<Rightarrow> real \<Rightarrow> real" where
  "recalcLoop [] tot = tot"
| "recalcLoop (a # as) tot = recalcLoop as (if Active a then tot + Weight a else tot)"

definition recalculateTotalWeight :: "AnalyzerPool \<Rightarrow> AnalyzerPool" where
  "recalculateTotalWeight p = p\<lparr>totalWeight := recalcLoop (analyzers p) 0\<rparr>"

definition AddAnalyzer :: "string \<Rightarrow> string \<Rightarrow> real \<Rightarrow> AnalyzerPool \<Rightarrow> AnalyzerPool" where
  "AddAnalyzer ident url weight p =
     recalculateTotalWeight
       (p\<lparr>analyzers := analyzers p @ [\<lparr>ID = ident, URL = url, Weight = weight, Active = True\<rparr>]\<rparr>)"

text \<open>
  The loop of \<^verbatim>\<open>RemoveAnalyzer\<close>: the first entry whose ID matches is cut out and the
  loop breaks; \<open>None\<close> when no entry matches (the loop ends without touching anything).
\<close>

fun removeLoop :: "string \<Rightarrow> Analyzer list \<Rightarrow> Analyzer list option" where
  "removeLoop ident [] = None"
| "removeLoop ident (a # as) =
     (if ID a = ident then Some as else map_option ((#) a) (removeLoop ident as))"

definition RemoveAnalyzer :: "string \<Rightarrow> AnalyzerPool \<Rightarrow> AnalyzerPool" where
  "RemoveAnalyzer ident p =
     (case removeLoop ident (analyzers p) of
        None \<Rightarrow> p
      | Some as \<Rightarrow> recalculateTotalWeight (p\<lparr>analyzers := as\<rparr>))"

definition GetActiveAnalyzers :: "AnalyzerPool \<Rightarrow> Analyzer list" where
  "GetActiveAnalyzers p = filter Active (analyzers p)"

text \<open>The loop of \<^verbatim>\<open>SetAnalyzerActive\<close>: the first entry whose ID matches is updated.\<close>

fun setActiveLoop :: "string \<Rightarrow> bool \<Rightarrow> Analyzer list \<Rightarrow> Analyzer list" where
  "setActiveLoop ident b [] = []"
| "setActiveLoop ident b (a # as) =
     (if ID a = ident then a\<lparr>Active := b\<rparr> # as else a # setActiveLoop ident b as)"

definition SetAnalyzerActive :: "string \<Rightarrow> bool \<Rightarrow> AnalyzerPool \<Rightarrow> AnalyzerPool" where
  "SetAnalyzerActive ident b p =
     recalculateTotalWeight (p\<lparr>analyzers := setActiveLoop ident b (analyzers p)\<rparr>)"

subsection \<open>Outbound HTTP\<close>

text \<open>
  What the network answers is an input of the model: a round trip either fails in
  transport (connection refused, timeout, cancelled context) or yields a response
  with a status code.
\<close>

datatype http_result = TransportError | Response int

text \<open>
  The environment of one \<^verbatim>\<open>SendLogPacket\<close> call: \<^verbatim>\<open>json.Marshal\<close> may fail,
  \<^verbatim>\<open>http.NewRequestWithContext\<close> may fail, otherwise the request is performed.
\<close>

datatype send_env = MarshalFails | SendRequestFails | SendDone http_result

datatype send_error =
    ErrMarshal
  | ErrCreateRequest
  | ErrSend string
  | ErrNonOK string int

definition SendLogPacket ::
  "send_env \<Rightarrow> Analyzer \<Rightarrow> AnalyzerPool \<Rightarrow> AnalyzerPool \<times> send_error option" where
  "SendLogPacket env analyzer p =
     (case env of
        MarshalFails \<Rightarrow> (p, Some ErrMarshal)
      | SendRequestFails \<Rightarrow> (p, Some ErrCreateRequest)
      | SendDone TransportError \<Rightarrow>
          (SetAnalyzerActive (ID analyzer) False p, Some (ErrSend (ID analyzer)))
      | SendDone (Response status) \<Rightarrow>
          (if status \<noteq> 200 then (p, Some (ErrNonOK (ID analyzer) status))
           else (p, None)))"

text \<open>The environment of one health probe: building the request may fail.\<close>

datatype probe_env = ProbeRequestFails | ProbeDone http_result

definition checkAnalyzerHealth :: "probe_env \<Rightarrow> Analyzer \<Rightarrow> AnalyzerPool \<Rightarrow> AnalyzerPool" where
  "checkAnalyzerHealth env a p =
     (case env of
        ProbeRequestFails \<Rightarrow> SetAnalyzerActive (ID a) False p
      | ProbeDone TransportError \<Rightarrow> SetAnalyzerActive (ID a) False p
      | ProbeDone (Response status) \<Rightarrow>
          (if status = 200 then SetAnalyzerActive (ID a) True p
           else SetAnalyzerActive (ID a) False p))"

text \<open>
  \<^verbatim>\<open>checkAllAnalyzers\<close> copies the list under the read lock and launches one probe per
  entry. \<open>launchedProbes\<close> is that set of probes, each paired with what its request
  will meet; the probes finish in any order, so a round is the run of any
  arrangement of them (\<open>runProbes\<close>), each probe's \<^verbatim>\<open>SetAnalyzerActive\<close> being
  serialised by the pool lock.
\<close>

definition launchedProbes :: "probe_env list \<Rightarrow> AnalyzerPool \<Rightarrow> (Analyzer \<times> probe_env) list" where
  "launchedProbes envs p = zip (analyzers p) envs"

fun runProbes :: "(Analyzer \<times> probe_env) list \<Rightarrow> AnalyzerPool \<Rightarrow> AnalyzerPool" where
  "runProbes [] p = p"
| "runProbes ((a, env) # rest) p = runProbes rest (checkAnalyzerHealth env a p)"

definition checkAllAnalyzers :: "probe_env list \<Rightarrow> AnalyzerPool \<Rightarrow> AnalyzerPool" where
  "checkAllAnalyzers envs p = runProbes (launchedProbes envs p) p"

section \<open>Selector (pkg/distributor, selectAnalyzerRandom)\<close>

datatype panic = IndexOutOfRange | TypeAssertionFailed

text \<open>First loop: \<^verbatim>\<open>totalWeight += a.Weight\<close>.\<close>

fun sumLoop :: "Analyzer list \<Rightarrow> real \<Rightarrow> real" where
  "sumLoop [] tot = tot"
| "sumLoop (a # as) tot = sumLoop as (tot + Weight a)"

text \<open>
  Second loop: \<^verbatim>\<open>currentWeight += a.Weight; if r <= currentWeight { return a }\<close>.
  \<open>None\<close> when the loop ends without returning.
\<close>

fun pickLoop :: "real \<Rightarrow> Analyzer list \<Rightarrow> real \<Rightarrow> Analyzer option" where
  "pickLoop r [] currentWeight = None"
| "pickLoop r (a # as) currentWeight =
     (if r \<le> currentWeight + Weight a then Some a
      else pickLoop r as (currentWeight + Weight a))"

text \<open>
  \<open>rnd\<close> is the value returned by \<^verbatim>\<open>rand.Float64()\<close>, a number in \<open>[0, 1)\<close>; the drawn
  value is \<open>r = rnd * totalWeight\<close>. Indexing an empty slice panics.
\<close>

definition selectAnalyzerRandom :: "real \<Rightarrow> Analyzer list \<Rightarrow> panic + Analyzer" where
  "selectAnalyzerRandom rnd as =
     (if length as = 1 then Inr (as ! 0)
      else
        (case pickLoop (rnd * sumLoop as 0) as 0 of
           Some a \<Rightarrow> Inr a
         | None \<Rightarrow> (case as of [] \<Rightarrow> Inl IndexOutOfRange | a # _ \<Rightarrow> Inr a)))"

section \<open>Dispatch engine (pkg/distributor)\<close>

subsection \<open>Channels\<close>

text \<open>
  A Go channel made with \<^verbatim>\<open>make(chan T, n)\<close> has a buffer of capacity \<open>n\<close>, oldest element
  first; \<open>n\<close> may be zero. A send in a \<^verbatim>\<open>select\<close> with a \<^verbatim>\<open>default\<close> branch proceeds in
  two cases: a receiver is already waiting on the channel, and the value is handed to
  it without passing through the buffer; or no receiver is waiting and the buffer has
  room, and the value is appended to the buffer. Otherwise the \<^verbatim>\<open>default\<close> branch is
  taken. With capacity zero the first case is the only way a send proceeds.

  Whether a receiver is waiting depends on what the other goroutines are doing at that
  moment, so it is an input of the model (\<open>waiting\<close>). The values handed to receivers
  that have not yet processed them are kept in \<open>handedOver\<close>. (In Go a receiver waits
  only while the buffer is empty; the model accepts the input in any state.)

  A receiver either was handed a value (\<open>woken\<close>) and goes on with it, or takes the
  oldest element of the buffer; with nothing to take it stays blocked (\<open>None\<close>).
  Closing the channels (\<^verbatim>\<open>Stop\<close>) ends the workers and is not part of the runs
  considered here.
\<close>

record 'a chan =
  buffer :: "'a list"
  capacity :: nat
  handedOver :: "'a list"

definition makeChan :: "nat \<Rightarrow> 'a chan" where
  "makeChan n = \<lparr>buffer = [], capacity = n, handedOver = []\<rparr>"

definition trySend :: "bool \<Rightarrow> 'a \<Rightarrow> 'a chan \<Rightarrow> 'a chan option" where
  "trySend waiting x c =
     (if waiting then Some (c\<lparr>handedOver := handedOver c @ [x]\<rparr>)
      else if length (buffer c) < capacity c then Some (c\<lparr>buffer := buffer c @ [x]\<rparr>)
      else None)"

definition recv :: "bool \<Rightarrow> 'a chan \<Rightarrow> ('a \<times> 'a chan) option" where
  "recv woken c =
     (if woken then
        (case handedOver c of [] \<Rightarrow> None | x # rest \<Rightarrow> Some (x, c\<lparr>handedOver := rest\<rparr>))
      else
        (case buffer c of [] \<Rightarrow> None | x # rest \<Rightarrow> Some (x, c\<lparr>buffer := rest\<rparr>)))"

subsection \<open>State\<close>

text \<open>
  The counters are \<^verbatim>\<open>int64\<close> in the source and only ever incremented by one; they are
  modelled as unbounded integers (wrap-around would need \<open>2^63\<close> increments).
  \<^verbatim>\<open>retryCount + 1\<close> is computed only under \<^verbatim>\<open>retryCount < d.maxRetries\<close>, so it cannot
  overflow either.
\<close>

record DistributionMetrics =
  TotalPacketsReceived :: int
  TotalPacketsSent :: int
  PacketsDropped :: int
  PacketsByAnalyzer :: "string \<rightharpoonup> int"

text \<open>
  The distributor's reference to its pool is modelled by pairing the distributor with
  the pool's state; the shutdown channel and the wait group play no part in the
  operations below.
\<close>

record 'v LogDistributor =
  metrics :: DistributionMetrics
  workQueue :: "'v LogPacket chan"
  maxWorkers :: int
  retryQueue :: "'v LogPacket chan"
  maxRetries :: int
  retryInterval :: int

definition NewLogDistributor :: "nat \<Rightarrow> int \<Rightarrow> int \<Rightarrow> int \<Rightarrow> 'v LogDistributor" where
  "NewLogDistributor qsize workers retries interval =
     \<lparr>metrics = \<lparr>TotalPacketsReceived = 0, TotalPacketsSent = 0, PacketsDropped = 0,
                 PacketsByAnalyzer = Map.empty\<rparr>,
      workQueue = makeChan qsize,
      maxWorkers = workers,
      retryQueue = makeChan qsize,
      maxRetries = retries,
      retryInterval = interval\<rparr>"

definition incReceived :: "DistributionMetrics \<Rightarrow> DistributionMetrics" where
  "incReceived m = m\<lparr>TotalPacketsReceived := TotalPacketsReceived m + 1\<rparr>"

definition incDropped :: "DistributionMetrics \<Rightarrow> DistributionMetrics" where
  "incDropped m = m\<lparr>PacketsDropped := PacketsDropped m + 1\<rparr>"

text \<open>
  \<^verbatim>\<open>TotalPacketsSent++; PacketsByAnalyzer[id]++\<close>: a key absent from a Go map reads as 0.
\<close>

definition incSent :: "string \<Rightarrow> DistributionMetrics \<Rightarrow> DistributionMetrics" where
  "incSent ident m =
     m\<lparr>TotalPacketsSent := TotalPacketsSent m + 1,
       PacketsByAnalyzer := (PacketsByAnalyzer m)
         (ident \<mapsto> (case PacketsByAnalyzer m ident of None \<Rightarrow> 0 | Some n \<Rightarrow> n) + 1)\<rparr>"

subsection \<open>EnqueuePacket\<close>

text \<open>\<open>waiting\<close>: a worker is waiting on the work queue when the call is made.\<close>

definition EnqueuePacket ::
  "bool \<Rightarrow> 'v LogPacket \<Rightarrow> 'v LogDistributor \<Rightarrow> 'v LogDistributor \<times> bool" where
  "EnqueuePacket waiting packet d =
     (case trySend waiting packet (workQueue d) of
        Some q \<Rightarrow> (d\<lparr>workQueue := q, metrics := incReceived (metrics d)\<rparr>, True)
      | None \<Rightarrow> (d\<lparr>metrics := incDropped (metrics d)\<rparr>, False))"

subsection \<open>processPacket\<close>

text \<open>
  \<^verbatim>\<open>if packet.Metadata == nil { packet.Metadata = make(...) };
  packet.Metadata["retryCount"] = n\<close>
\<close>

definition stampRetryCount :: "int \<Rightarrow> 'v LogPacket \<Rightarrow> 'v LogPacket" where
  "stampRetryCount n packet =
     packet\<lparr>Metadata :=
       Some ((case Metadata packet of None \<Rightarrow> Map.empty | Some m \<Rightarrow> m)
               (''retryCount'' \<mapsto> IntVal n))\<rparr>"

text \<open>
  The block that \<^verbatim>\<open>processPacket\<close> runs on a failure. The source has it twice, word
  for word: once for an empty list of active analyzers, once for a failed send.
  \<open>waiting\<close>: the retry worker is waiting on the retry queue at that moment.
\<close>

definition retryOrDrop ::
  "bool \<Rightarrow> 'v LogPacket \<Rightarrow> int \<Rightarrow> 'v LogDistributor \<Rightarrow> 'v LogDistributor" where
  "retryOrDrop waiting packet retryCount d =
     (if retryCount < maxRetries d then
        (case trySend waiting (stampRetryCount (retryCount + 1) packet) (retryQueue d) of
           Some q \<Rightarrow> d\<lparr>retryQueue := q\<rparr>
         | None \<Rightarrow> d\<lparr>metrics := incDropped (metrics d)\<rparr>)
      else d\<lparr>metrics := incDropped (metrics d)\<rparr>)"

text \<open>
  \<open>rnd\<close> is what \<^verbatim>\<open>rand.Float64()\<close> returns if the selector draws, \<open>env\<close> what the send
  meets, \<open>waiting\<close> whether the retry worker is waiting on the retry queue. The pool is
  part of the state: a transport error changes it.
\<close>

definition processPacket ::
  "real \<Rightarrow> send_env \<Rightarrow> bool \<Rightarrow> 'v LogPacket \<Rightarrow> int \<Rightarrow> 'v LogDistributor \<times> AnalyzerPool
     \<Rightarrow> panic + ('v LogDistributor \<times> AnalyzerPool)" where
  "processPacket rnd env waiting packet retryCount s =
     (case s of (d, p) \<Rightarrow>
        (let activeAnalyzers = GetActiveAnalyzers p in
         if length activeAnalyzers = 0 then Inr (retryOrDrop waiting packet retryCount d, p)
         else
           (case selectAnalyzerRandom rnd activeAnalyzers of
              Inl e \<Rightarrow> Inl e
            | Inr selectedAnalyzer \<Rightarrow>
                (case SendLogPacket env selectedAnalyzer p of
                   (p', Some err) \<Rightarrow> Inr (retryOrDrop waiting packet retryCount d, p')
                 | (p', None) \<Rightarrow>
                     Inr (d\<lparr>metrics := incSent (ID selectedAnalyzer) (metrics d)\<rparr>, p')))))"

subsection \<open>Workers\<close>

text \<open>
  One iteration of \<^verbatim>\<open>worker\<close>: the worker goes on with the packet it was handed
  (\<open>woken\<close>) or takes one from the buffer, and processes it; with nothing to take it
  stays blocked.
\<close>

definition workerStep ::
  "bool \<Rightarrow> real \<Rightarrow> send_env \<Rightarrow> bool \<Rightarrow> 'v LogDistributor \<times> AnalyzerPool
     \<Rightarrow> panic + ('v LogDistributor \<times> AnalyzerPool)" where
  "workerStep woken rnd env waiting s =
     (case s of (d, p) \<Rightarrow>
        (case recv woken (workQueue d) of
           None \<Rightarrow> Inr (d, p)
         | Some (packet, q) \<Rightarrow>
             processPacket rnd env waiting packet 0 (d\<lparr>workQueue := q\<rparr>, p)))"

text \<open>
  \<^verbatim>\<open>packet.Metadata["retryCount"].(int)\<close>: reading a nil map or an absent key yields
  the nil interface, and the assertion panics on anything whose dynamic type is not
  \<^verbatim>\<open>int\<close>.
\<close>

definition assertRetryCount :: "'v LogPacket \<Rightarrow> panic + int" where
  "assertRetryCount packet =
     (case Metadata packet of
        None \<Rightarrow> Inl TypeAssertionFailed
      | Some m \<Rightarrow>
          (case m ''retryCount'' of
             Some (IntVal n) \<Rightarrow> Inr n
           | _ \<Rightarrow> Inl TypeAssertionFailed))"

text \<open>One iteration of \<^verbatim>\<open>retryWorker\<close> (the wait on the ticker has no effect on the state).\<close>

definition retryWorkerStep ::
  "bool \<Rightarrow> real \<Rightarrow> send_env \<Rightarrow> bool \<Rightarrow> 'v LogDistributor \<times> AnalyzerPool
     \<Rightarrow> panic + ('v LogDistributor \<times> AnalyzerPool)" where
  "retryWorkerStep woken rnd env waiting s =
     (case s of (d, p) \<Rightarrow>
        (case recv woken (retryQueue d) of
           None \<Rightarrow> Inr (d, p)
         | Some (packet, q) \<Rightarrow>
             (case assertRetryCount packet of
                Inl e \<Rightarrow> Inl e
              | Inr n \<Rightarrow>
                  processPacket rnd env waiting packet n (d\<lparr>retryQueue := q\<rparr>, p))))"

subsection \<open>Runs of the engine\<close>

text \<open>
  The operations that change the engine and its pool, each taken as one atomic step:
  an \<^verbatim>\<open>EnqueuePacket\<close> call, one iteration of a worker or of the retry worker (each a
  \<^verbatim>\<open>processPacket\<close> call on the received packet), the pool's administrative operations
  and the completion of a health probe. Each event carries what the environment decides
  for it: whether a receiver is waiting on the channel it sends on, whether the
  iteration is that of a receiver that was handed its packet, the selector's draw and
  what the HTTP request meets. These inputs are not constrained, so the runs include
  every interleaving of whole operations that the program can show (and some it
  cannot, such as a hand-over while no goroutine is waiting).
\<close>

datatype 'v event =
    Enqueue bool "'v LogPacket"
  | Work bool real send_env bool
  | Retry bool real send_env bool
  | Add string string real
  | Remove string
  | SetActive string bool
  | Probe Analyzer probe_env

fun step ::
  "'v event \<Rightarrow> 'v LogDistributor \<times> AnalyzerPool \<Rightarrow> panic + ('v LogDistributor \<times> AnalyzerPool)" where
  "step (Enqueue waiting packet) (d, p) = Inr (fst (EnqueuePacket waiting packet d), p)"
| "step (Work woken rnd env waiting) (d, p) = workerStep woken rnd env waiting (d, p)"
| "step (Retry woken rnd env waiting) (d, p) = retryWorkerStep woken rnd env waiting (d, p)"
| "step (Add ident url weight) (d, p) = Inr (d, AddAnalyzer ident url weight p)"
| "step (Remove ident) (d, p) = Inr (d, RemoveAnalyzer ident p)"
| "step (SetActive ident b) (d, p) = Inr (d, SetAnalyzerActive ident b p)"
| "step (Probe a env) (d, p) = Inr (d, checkAnalyzerHealth env a p)"

fun run ::
  "'v event list \<Rightarrow> 'v LogDistributor \<times> AnalyzerPool \<Rightarrow> panic + ('v LogDistributor \<times> AnalyzerPool)" where
  "run [] s = Inr s"
| "run (e # es) s = (case step e s of Inl x \<Rightarrow> Inl x | Inr s' \<Rightarrow> run es s')"

text \<open>How many \<^verbatim>\<open>EnqueuePacket\<close> calls of a run returned false.\<close>

fun rejectedBy :: "'v event \<Rightarrow> 'v LogDistributor \<times> AnalyzerPool \<Rightarrow> int" where
  "rejectedBy (Enqueue waiting packet) (d, p) =
     (if snd (EnqueuePacket waiting packet d) then 0 else 1)"
| "rejectedBy _ _ = 0"

fun rejected :: "'v event list \<Rightarrow> 'v LogDistributor \<times> AnalyzerPool \<Rightarrow> int" where
  "rejected [] s = 0"
| "rejected (e # es) s =
     rejectedBy e s + (case step e s of Inl x \<Rightarrow> 0 | Inr s' \<Rightarrow> rejected es s')"

text \<open>The pool's own operations, for claims about the pool alone.\<close>

datatype pool_op = AddOp string string real | RemoveOp string | SetActiveOp string bool

fun applyOp :: "pool_op \<Rightarrow> AnalyzerPool \<Rightarrow> AnalyzerPool" where
  "applyOp (AddOp ident url weight) p = AddAnalyzer ident url weight p"
| "applyOp (RemoveOp ident) p = RemoveAnalyzer ident p"
| "applyOp (SetActiveOp ident b) p = SetAnalyzerActive ident b p"

fun applyOps :: "pool_op list \<Rightarrow> AnalyzerPool \<Rightarrow> AnalyzerPool" where
  "applyOps [] p = p"
| "applyOps (x # xs) p = applyOps xs (applyOp x p)"

section \<open>Vocabulary of the properties\<close>

text \<open>The pool's cached total is the sum of the weights of its active entries.\<close>

definition weightCached :: "AnalyzerPool \<Rightarrow> bool" where
  "weightCached p \<longleftrightarrow> totalWeight p = sum_list (map Weight (filter Active (analyzers p)))"

text \<open>No two entries of the pool share an identifier.\<close>

definition uniqueIDs :: "AnalyzerPool \<Rightarrow> bool" where
  "uniqueIDs p \<longleftrightarrow> distinct (map ID (analyzers p))"

text \<open>
  Along a sequence of pool operations, every \<^verbatim>\<open>AddAnalyzer\<close> is given an identifier
  that the pool does not hold at that moment.
\<close>

fun addsAreFresh :: "pool_op list \<Rightarrow> AnalyzerPool \<Rightarrow> bool" where
  "addsAreFresh [] p = True"
| "addsAreFresh (x # xs) p =
     ((case x of
         AddOp ident url weight \<Rightarrow> ident \<notin> set (map ID (analyzers p))
       | _ \<Rightarrow> True)
      \<and> addsAreFresh xs (applyOp x p))"

text \<open>
  The selector in the words of the specification: \<open>W\<close> is the sum of the weights of
  the slice, the cumulative weight of entry \<open>i\<close> is the sum of the weights up to and
  including it, and \<open>firstWithin cmp r as\<close> is the first entry, in slice order, whose
  cumulative weight \<open>c\<close> satisfies \<open>cmp r c\<close>.
\<close>

definition weightSum :: "Analyzer list \<Rightarrow> real" where
  "weightSum as = sum_list (map Weight as)"

definition cumWeight :: "Analyzer list \<Rightarrow> nat \<Rightarrow> real" where
  "cumWeight as i = sum_list (map Weight (take (Suc i) as))"

definition firstWithin :: "(real \<Rightarrow> real \<Rightarrow> bool) \<Rightarrow> real \<Rightarrow> Analyzer list \<Rightarrow> Analyzer option" where
  "firstWithin cmp r as =
     map_option (\<lambda>i. as ! i) (List.find (\<lambda>i. cmp r (cumWeight as i)) [0..<length as])"

text \<open>
  Entry \<open>i\<close> of the list exists and no other entry has its identifier.
\<close>

definition idOnlyAt :: "nat \<Rightarrow> Analyzer list \<Rightarrow> bool" where
  "idOnlyAt i as =
     (i < length as
      \<and> ID (as ! i) \<notin> set (take i (map ID as))
      \<and> ID (as ! i) \<notin> set (drop (Suc i) (map ID as)))"

text \<open>
  \<^verbatim>\<open>processPacket\<close> reaches a failure: the list of active analyzers is empty, or the
  send to the selected analyzer returns an error.
\<close>

definition dispatchFails :: "real \<Rightarrow> send_env \<Rightarrow> AnalyzerPool \<Rightarrow> bool" where
  "dispatchFails rnd env p =
     (GetActiveAnalyzers p = [] \<or>
      (case selectAnalyzerRandom rnd (GetActiveAnalyzers p) of
         Inl e \<Rightarrow> False
       | Inr a \<Rightarrow> snd (SendLogPacket env a p) \<noteq> None))"

text \<open>
  The packet's \<^verbatim>\<open>Metadata\<close> map is non-nil and \<^verbatim>\<open>Metadata["retryCount"]\<close> holds a value
  of dynamic type \<^verbatim>\<open>int\<close>.
\<close>

definition retryStamped :: "'v LogPacket \<Rightarrow> bool" where
  "retryStamped packet =
     (case Metadata packet of
        None \<Rightarrow> False
      | Some m \<Rightarrow> (case m ''retryCount'' of Some (IntVal n) \<Rightarrow> True | _ \<Rightarrow> False))"

text \<open>
  Every packet sent on the retry queue and not yet processed, in its buffer or handed
  to the retry worker, is stamped.
\<close>

definition retryQueueStamped :: "'v LogDistributor \<Rightarrow> bool" where
  "retryQueueStamped d =
     (list_all retryStamped (buffer (retryQueue d))
      \<and> list_all retryStamped (handedOver (retryQueue d)))"

text \<open>
  The packets held by the two queues (in a buffer or handed to a receiver that has not
  processed them yet), and by how much the packets counted as sent, dropped or still
  queued exceed the packets counted as received.
\<close>

definition pending :: "'a chan \<Rightarrow> int" where
  "pending c = int (length (buffer c)) + int (length (handedOver c))"

definition queued :: "'v LogDistributor \<Rightarrow> int" where
  "queued d = pending (workQueue d) + pending (retryQueue d)"

definition surplus :: "'v LogDistributor \<Rightarrow> int" where
  "surplus d = TotalPacketsSent (metrics d) + PacketsDropped (metrics d) + queued d
                 - TotalPacketsReceived (metrics d)"

subsection \<open>Concrete inputs\<close>

definition examplePacket :: "unit LogPacket" where
  "examplePacket =
     \<lparr>PacketID = ''p1'', AgentID = ''agent'', SentAt = 0, ReceivedAt = 1, LogMessages = [],
      Metadata = None\<rparr>"

definition zeroFirst :: "Analyzer list" where
  "zeroFirst = [\<lparr>ID = ''z'', URL = ''http://z'', Weight = 0, Active = True\<rparr>,
                \<lparr>ID = ''p'', URL = ''http://p'', Weight = 1, Active = True\<rparr>]"

definition evenPair :: "Analyzer list" where
  "evenPair = [\<lparr>ID = ''a'', URL = ''http://a'', Weight = 1, Active = True\<rparr>,
               \<lparr>ID = ''b'', URL = ''http://b'', Weight = 1, Active = True\<rparr>]"

definition loneList :: "Analyzer list" where
  "loneList = [\<lparr>ID = ''a'', URL = ''http://a'', Weight = 3, Active = True\<rparr>]"

definition zeroPair :: "Analyzer list" where
  "zeroPair = [\<lparr>ID = ''y'', URL = ''http://y'', Weight = 0, Active = True\<rparr>,
               \<lparr>ID = ''z'', URL = ''http://z'', Weight = 0, Active = True\<rparr>]"

definition mistypedPacket :: "unit LogPacket" where
  "mistypedPacket =
     \<lparr>PacketID = ''p2'', AgentID = ''agent'', SentAt = 0, ReceivedAt = 1, LogMessages = [],
      Metadata = Some [''retryCount'' \<mapsto> OtherVal ()]\<rparr>"

definition poolScript :: "pool_op list" where
  "poolScript =
     [AddOp ''a'' ''http://x'' 1, AddOp ''b'' ''http://y'' 2, SetActiveOp ''a'' False,
      RemoveOp ''a'']"

definition emptyPool :: AnalyzerPool where
  "emptyPool = NewAnalyzerPool 10"

definition onePool :: AnalyzerPool where
  "onePool = applyOps [AddOp ''x'' ''http://one'' 1] (NewAnalyzerPool 10)"

definition dupPool :: AnalyzerPool where
  "dupPool =
     applyOps [AddOp ''x'' ''http://one'' 1, AddOp ''x'' ''http://two'' 1] (NewAnalyzerPool 10)"

definition twoPool :: AnalyzerPool where
  "twoPool =
     applyOps [AddOp ''a'' ''http://a'' 1, AddOp ''b'' ''http://b'' 2, SetActiveOp ''b'' False]
       (NewAnalyzerPool 10)"

definition twoProbes :: "probe_env list" where
  "twoProbes = [ProbeDone (Response 500), ProbeDone (Response 200)]"

text \<open>
  A new distributor with queues of capacity one, one with queues of capacity zero, one
  whose ingress buffer is full, and one whose retry buffer is full.
\<close>

definition buffered :: "unit LogDistributor" where
  "buffered = NewLogDistributor 1 1 3 5"

definition unbuffered :: "unit LogDistributor" where
  "unbuffered = NewLogDistributor 0 1 3 5"

definition fullIngress :: "unit LogDistributor" where
  "fullIngress = fst (EnqueuePacket False examplePacket buffered)"

definition fullRetry :: "unit LogDistributor" where
  "fullRetry = retryOrDrop False examplePacket 0 buffered"


text \<open>
  A packet is handed to a waiting worker, whose dispatch fails (no analyzer) while the
  retry worker is busy; a second one is buffered, taken by a worker, and handed to the
  waiting retry worker.
\<close>

definition failedDispatch :: "unit event list" where
  "failedDispatch =
     [Enqueue True mistypedPacket, Work True 0 (SendDone (Response 200)) False,
      Enqueue False mistypedPacket, Work False 0 (SendDone (Response 200)) True]"

text \<open>The equations that evaluate the pool and the engine on concrete inputs.\<close>

lemmas pool_eval =
  AddAnalyzer_def RemoveAnalyzer_def SetAnalyzerActive_def recalculateTotalWeight_def
  NewAnalyzerPool_def checkAnalyzerHealth_def checkAllAnalyzers_def launchedProbes_def
  SendLogPacket_def

lemmas engine_eval =
  EnqueuePacket_def trySend_def recv_def incReceived_def incDropped_def incSent_def
  NewLogDistributor_def makeChan_def workerStep_def retryWorkerStep_def processPacket_def
  retryOrDrop_def stampRetryCount_def assertRetryCount_def GetActiveAnalyzers_def
  NewAnalyzerPool_def emptyPool_def buffered_def unbuffered_def

section \<open>The analyzer pool\<close>

subsection \<open>The cached total weight\<close>

lemma recalcLoop_sum: "recalcLoop as t = t + sum_list (map Weight (filter Active as))"
  by (induction as arbitrary: t) auto

lemma totalWeight_recalc:
  "totalWeight (recalculateTotalWeight p) = sum_list (map Weight (filter Active (analyzers p)))"
  by (simp add: recalculateTotalWeight_def recalcLoop_sum)

lemma analyzers_recalc [simp]: "analyzers (recalculateTotalWeight p) = analyzers p"
  by (simp add: recalculateTotalWeight_def)

lemma weightCached_recalc: "weightCached (recalculateTotalWeight p)"
  by (simp add: weightCached_def totalWeight_recalc)

text \<open>
  \<^verbatim>\<open>AddAnalyzer\<close> and \<^verbatim>\<open>SetAnalyzerActive\<close> always recompute the total;
  \<^verbatim>\<open>RemoveAnalyzer\<close> recomputes it when it removes an entry and otherwise leaves the
  pool as it was.
\<close>

lemma weightCached_applyOp: "weightCached p \<Longrightarrow> weightCached (applyOp x p)"
  by (cases x)
     (auto simp: AddAnalyzer_def RemoveAnalyzer_def SetAnalyzerActive_def weightCached_recalc
           split: option.splits)

lemma weightCached_applyOps: "weightCached p \<Longrightarrow> weightCached (applyOps xs p)"
  by (induction xs arbitrary: p) (auto simp: weightCached_applyOp)

lemma weightCached_New: "weightCached (NewAnalyzerPool h)"
  by (simp add: weightCached_def NewAnalyzerPool_def)

text \<open>
  Claim C6. After every sequence of \<^verbatim>\<open>AddAnalyzer\<close>, \<^verbatim>\<open>RemoveAnalyzer\<close> and
  \<^verbatim>\<open>SetAnalyzerActive\<close> calls on a new pool (so after each call of such a sequence),
  the pool's cached \<^verbatim>\<open>totalWeight\<close> equals the sum of \<^verbatim>\<open>Weight\<close> over exactly the
  analyzers whose \<^verbatim>\<open>Active\<close> flag is true.
\<close>

theorem totalWeight_is_live_sum:
  "totalWeight (applyOps ops (NewAnalyzerPool h)) =
     sum_list (map Weight (filter Active (analyzers (applyOps ops (NewAnalyzerPool h)))))"
  using weightCached_applyOps [OF weightCached_New] by (simp add: weightCached_def)

theorem totalWeight_is_live_sum_witness:
  "totalWeight (applyOps (take 3 poolScript) (NewAnalyzerPool 10)) = 2
   \<and> map Active (analyzers (applyOps (take 3 poolScript) (NewAnalyzerPool 10))) = [False, True]
   \<and> map Weight (analyzers (applyOps (take 3 poolScript) (NewAnalyzerPool 10))) = [1, 2]"
  using totalWeight_is_live_sum [of "take 3 poolScript" 10]
  by (simp add: poolScript_def pool_eval)

subsection \<open>Identifiers\<close>

lemma ID_setActiveLoop [simp]: "map ID (setActiveLoop i b as) = map ID as"
  by (induction as) auto

lemma length_setActiveLoop [simp]: "length (setActiveLoop ident b as) = length as"
  by (induction as) auto

lemma removeLoop_subset: "removeLoop i as = Some bs \<Longrightarrow> set bs \<subseteq> set as"
  by (induction as arbitrary: bs) (auto split: if_splits)

lemma removeLoop_distinct:
  "removeLoop i as = Some bs \<Longrightarrow> distinct (map ID as) \<Longrightarrow> distinct (map ID bs)"
proof (induction as arbitrary: bs)
  case Nil
  then show ?case by simp
next
  case (Cons a as)
  show ?case
  proof (cases "ID a = i")
    case True
    with Cons.prems show ?thesis by simp
  next
    case False
    with Cons.prems obtain cs where cs: "removeLoop i as = Some cs" and bs: "bs = a # cs"
      by auto
    from Cons.IH [OF cs] Cons.prems(2) have "distinct (map ID cs)" by simp
    moreover from removeLoop_subset [OF cs] Cons.prems(2) have "ID a \<notin> ID ` set cs" by auto
    ultimately show ?thesis using bs by simp
  qed
qed

lemma uniqueIDs_applyOp:
  "uniqueIDs p \<Longrightarrow> addsAreFresh [x] p \<Longrightarrow> uniqueIDs (applyOp x p)"
  by (cases x)
     (auto simp: uniqueIDs_def AddAnalyzer_def RemoveAnalyzer_def SetAnalyzerActive_def
           removeLoop_distinct split: option.splits)

lemma uniqueIDs_applyOps:
  "uniqueIDs p \<Longrightarrow> addsAreFresh xs p \<Longrightarrow> uniqueIDs (applyOps xs p)"
proof (induction xs arbitrary: p)
  case Nil
  then show ?case by simp
next
  case (Cons x xs)
  from Cons.prems have "uniqueIDs (applyOp x p)" by (intro uniqueIDs_applyOp) auto
  with Cons show ?case by simp
qed

lemma addsAreFresh_take: "addsAreFresh xs p \<Longrightarrow> addsAreFresh (take k xs) p"
  by (induction xs arbitrary: p k) (auto simp: take_Cons')

text \<open>
  \<^verbatim>\<open>AddAnalyzer\<close> appends without looking at the identifiers already in the pool.
\<close>

lemma AddAnalyzer_present_id:
  "ident \<in> set (map ID (analyzers p)) \<Longrightarrow>
     \<not> distinct (map ID (analyzers (AddAnalyzer ident url weight p)))"
  by (auto simp: AddAnalyzer_def)

text \<open>
  Claim C5, as amended. For every sequence of \<^verbatim>\<open>AddAnalyzer\<close>, \<^verbatim>\<open>RemoveAnalyzer\<close> and
  \<^verbatim>\<open>SetAnalyzerActive\<close> calls on a new pool in which every \<^verbatim>\<open>AddAnalyzer\<close> is given
  an identifier not present in the pool at that moment, no two analyzers share an
  identifier after each operation of the sequence. (The pool itself does not refuse an
  identifier that is present: \<open>AddAnalyzer_present_id\<close>.)
\<close>

theorem ids_unique_when_adds_fresh:
  assumes "addsAreFresh ops (NewAnalyzerPool h)"
  shows "\<forall>k \<le> length ops.
           distinct (map ID (analyzers (applyOps (take k ops) (NewAnalyzerPool h))))"
proof (intro allI impI)
  fix k
  have "uniqueIDs (NewAnalyzerPool h)" by (simp add: uniqueIDs_def NewAnalyzerPool_def)
  from uniqueIDs_applyOps [OF this addsAreFresh_take [OF assms]]
  show "distinct (map ID (analyzers (applyOps (take k ops) (NewAnalyzerPool h))))"
    by (simp add: uniqueIDs_def)
qed

theorem ids_unique_when_adds_fresh_witness:
  "addsAreFresh poolScript (NewAnalyzerPool 10)
   \<and> 2 \<le> length poolScript
   \<and> map ID (analyzers (applyOps (take 2 poolScript) (NewAnalyzerPool 10))) = [''a'', ''b'']
   \<and> distinct (map ID (analyzers (applyOps (take 2 poolScript) (NewAnalyzerPool 10))))"
  using ids_unique_when_adds_fresh [of poolScript 10, THEN spec, of 2]
  by (simp add: poolScript_def pool_eval)

text \<open>
  Without the restriction to fresh identifiers the property fails: registering the
  identifier \<open>x\<close> twice leaves two entries with that identifier.
\<close>

theorem duplicate_id_counterexample:
  "dupPool =
     AddAnalyzer ''x'' ''http://two'' 1 (AddAnalyzer ''x'' ''http://one'' 1 (NewAnalyzerPool 10))
   \<and> map ID (analyzers dupPool) = [''x'', ''x'']
   \<and> \<not> distinct (map ID (analyzers dupPool))"
  by (simp add: dupPool_def pool_eval)

subsection \<open>Which entry a liveness update reaches\<close>

lemma setActiveLoop_nth_other:
  "i < length as \<Longrightarrow> ID (as ! i) \<noteq> ident \<Longrightarrow> setActiveLoop ident b as ! i = as ! i"
  by (induction as arbitrary: i) (auto simp: nth_Cons')

lemma setActiveLoop_nth_first:
  "i < length as \<Longrightarrow> ID (as ! i) = ident \<Longrightarrow> \<forall>j<i. ID (as ! j) \<noteq> ident \<Longrightarrow>
     setActiveLoop ident b as ! i = (as ! i)\<lparr>Active := b\<rparr>"
proof (induction as arbitrary: i)
  case Nil
  then show ?case by simp
next
  case (Cons a as)
  show ?case
  proof (cases i)
    case 0
    with Cons.prems show ?thesis by simp
  next
    case (Suc k)
    from Cons.prems(3) Suc have "ID a \<noteq> ident" by auto
    moreover from Cons.prems Suc have "setActiveLoop ident b as ! k = (as ! k)\<lparr>Active := b\<rparr>"
      by (intro Cons.IH) auto
    ultimately show ?thesis using Suc by simp
  qed
qed

lemma ID_nth_setActiveLoop: "i < length as \<Longrightarrow> ID (setActiveLoop ident b as ! i) = ID (as ! i)"
  using ID_setActiveLoop [of ident b as] by (metis length_setActiveLoop nth_map)

lemma idOnlyAt_earlier: "idOnlyAt i as \<Longrightarrow> j < i \<Longrightarrow> ID (as ! j) \<noteq> ID (as ! i)"
proof
  assume h: "idOnlyAt i as" "j < i" "ID (as ! j) = ID (as ! i)"
  then have "j < length (take i (map ID as))" by (simp add: idOnlyAt_def)
  then have "take i (map ID as) ! j \<in> set (take i (map ID as))" by (rule nth_mem)
  with h show False by (simp add: idOnlyAt_def)
qed

lemma idOnlyAt_setActiveLoop: "idOnlyAt i as \<Longrightarrow> idOnlyAt i (setActiveLoop ident b as)"
  by (simp add: idOnlyAt_def ID_nth_setActiveLoop)

lemma setActiveLoop_nth_unique:
  assumes "idOnlyAt i as"
  shows "setActiveLoop ident b as ! i =
           (if ID (as ! i) = ident then (as ! i)\<lparr>Active := b\<rparr> else as ! i)"
proof (cases "ID (as ! i) = ident")
  case True
  moreover have "\<forall>j<i. ID (as ! j) \<noteq> ident"
    using idOnlyAt_earlier [OF assms] True by auto
  ultimately show ?thesis using assms setActiveLoop_nth_first [of i as ident b]
    by (simp add: idOnlyAt_def)
next
  case False
  then show ?thesis using assms by (simp add: setActiveLoop_nth_other idOnlyAt_def)
qed

subsection \<open>Forwarding\<close>

text \<open>
  Claim C4, as amended. \<^verbatim>\<open>SendLogPacket\<close> returns nil if and only if the request was
  performed and the response status is 200. On a transport error it returns an error
  and the pool it leaves is the result of \<^verbatim>\<open>SetAnalyzerActive(analyzer.ID, false)\<close>:
  the first registered entry that carries the target's identifier is marked not-live,
  which is the target itself when no earlier entry shares its identifier. On a response
  whose status is not 200 an error is returned and the pool is unchanged.
\<close>

theorem SendLogPacket_success_and_liveness:
  "(snd (SendLogPacket env a p) = None \<longleftrightarrow> env = SendDone (Response 200))
   \<and> (env = SendDone TransportError \<longrightarrow>
        fst (SendLogPacket env a p) = SetAnalyzerActive (ID a) False p
        \<and> snd (SendLogPacket env a p) \<noteq> None
        \<and> (\<forall>i < length (analyzers p).
             ID (analyzers p ! i) = ID a \<and> (\<forall>j<i. ID (analyzers p ! j) \<noteq> ID a) \<longrightarrow>
             analyzers (fst (SendLogPacket env a p)) ! i = (analyzers p ! i)\<lparr>Active := False\<rparr>))
   \<and> (\<forall>status. env = SendDone (Response status) \<and> status \<noteq> 200 \<longrightarrow>
        fst (SendLogPacket env a p) = p \<and> snd (SendLogPacket env a p) \<noteq> None)"
  by (auto simp: SendLogPacket_def SetAnalyzerActive_def setActiveLoop_nth_first
           split: send_env.splits http_result.splits)

theorem SendLogPacket_success_and_liveness_witness:
  "snd (SendLogPacket (SendDone (Response 200)) (analyzers onePool ! 0) onePool) = None
   \<and> Active (analyzers onePool ! 0)
   \<and> \<not> Active (analyzers
         (fst (SendLogPacket (SendDone TransportError) (analyzers onePool ! 0) onePool)) ! 0)
   \<and> snd (SendLogPacket (SendDone TransportError) (analyzers onePool ! 0) onePool) \<noteq> None
   \<and> fst (SendLogPacket (SendDone (Response 500)) (analyzers onePool ! 0) onePool) = onePool
   \<and> snd (SendLogPacket (SendDone (Response 500)) (analyzers onePool ! 0) onePool) \<noteq> None"
  using
    SendLogPacket_success_and_liveness
      [of "SendDone (Response 200)" "analyzers onePool ! 0" onePool]
    SendLogPacket_success_and_liveness
      [of "SendDone TransportError" "analyzers onePool ! 0" onePool]
    SendLogPacket_success_and_liveness
      [of "SendDone (Response 500)" "analyzers onePool ! 0" onePool]
  by (simp add: onePool_def pool_eval)

text \<open>
  Without the restriction to the first entry of that identifier the property fails:
  when the target is the second of two registered analyzers with the same identifier, a
  transport error on the send to it returns an error and leaves the target live.
\<close>

theorem send_duplicate_id_counterexample:
  "length (analyzers dupPool) = 2
   \<and> URL (analyzers dupPool ! 1) = ''http://two''
   \<and> Active (analyzers dupPool ! 1)
   \<and> snd (SendLogPacket (SendDone TransportError) (analyzers dupPool ! 1) dupPool) \<noteq> None
   \<and> Active (analyzers
        (fst (SendLogPacket (SendDone TransportError) (analyzers dupPool ! 1) dupPool)) ! 1)
   \<and> URL (analyzers
        (fst (SendLogPacket (SendDone TransportError) (analyzers dupPool ! 1) dupPool)) ! 1)
       = ''http://two''"
  by (simp add: dupPool_def pool_eval)

subsection \<open>Health probes\<close>

lemma checkAnalyzerHealth_eq:
  "checkAnalyzerHealth env a p = SetAnalyzerActive (ID a) (env = ProbeDone (Response 200)) p"
  by (auto simp: checkAnalyzerHealth_def split: probe_env.splits http_result.splits)

lemma checkAnalyzerHealth_nth:
  assumes "idOnlyAt i (analyzers p)"
  shows "idOnlyAt i (analyzers (checkAnalyzerHealth env a p))"
    and "analyzers (checkAnalyzerHealth env a p) ! i =
           (if ID (analyzers p ! i) = ID a
            then (analyzers p ! i)\<lparr>Active := (env = ProbeDone (Response 200))\<rparr>
            else analyzers p ! i)"
  using assms
  by (simp_all add: checkAnalyzerHealth_eq SetAnalyzerActive_def idOnlyAt_setActiveLoop
        setActiveLoop_nth_unique)

text \<open>Probes of other identifiers leave the entry as it is.\<close>

lemma runProbes_untouched:
  "idOnlyAt i (analyzers p) \<Longrightarrow>
   filter (\<lambda>(a, env). ID a = ID (analyzers p ! i)) sched = [] \<Longrightarrow>
     analyzers (runProbes sched p) ! i = analyzers p ! i"
proof (induction sched arbitrary: p)
  case Nil
  then show ?case by simp
next
  case (Cons x sched)
  obtain a env where x: "x = (a, env)" by (cases x)
  from Cons.prems(2) have ne: "ID a \<noteq> ID (analyzers p ! i)"
    and rest: "filter (\<lambda>(a, env). ID a = ID (analyzers p ! i)) sched = []"
    unfolding x by (auto split: if_splits)
  let ?p = "checkAnalyzerHealth env a p"
  from checkAnalyzerHealth_nth [OF Cons.prems(1), of env a] ne
  have 1: "idOnlyAt i (analyzers ?p)" and 2: "analyzers ?p ! i = analyzers p ! i" by auto
  from Cons.IH [OF 1] rest 2 show ?case unfolding x by simp
qed

text \<open>The one probe of the entry's identifier decides its flag, wherever it is scheduled.\<close>

lemma runProbes_single:
  "idOnlyAt i (analyzers p) \<Longrightarrow>
   filter (\<lambda>(a, env). ID a = ID (analyzers p ! i)) sched = [(a0, env0)] \<Longrightarrow>
     analyzers (runProbes sched p) ! i
       = (analyzers p ! i)\<lparr>Active := (env0 = ProbeDone (Response 200))\<rparr>"
proof (induction sched arbitrary: p)
  case Nil
  then show ?case by simp
next
  case (Cons x sched)
  obtain a env where x: "x = (a, env)" by (cases x)
  let ?p = "checkAnalyzerHealth env a p"
  note probe = checkAnalyzerHealth_nth [OF Cons.prems(1), of env a]
  show ?case
  proof (cases "ID a = ID (analyzers p ! i)")
    case True
    with Cons.prems(2) have hd: "(a, env) = (a0, env0)"
      and rest: "filter (\<lambda>(a, env). ID a = ID (analyzers p ! i)) sched = []"
      unfolding x by auto
    from probe True
    have 2: "analyzers ?p ! i = (analyzers p ! i)\<lparr>Active := (env = ProbeDone (Response 200))\<rparr>"
      by simp
    then have "ID (analyzers ?p ! i) = ID (analyzers p ! i)" by simp
    with runProbes_untouched [OF probe(1), of sched] rest
    have "analyzers (runProbes sched ?p) ! i = analyzers ?p ! i" by simp
    with 2 hd show ?thesis unfolding x by simp
  next
    case False
    with Cons.prems(2)
    have rest: "filter (\<lambda>(a, env). ID a = ID (analyzers p ! i)) sched = [(a0, env0)]"
      unfolding x by auto
    from probe False have 2: "analyzers ?p ! i = analyzers p ! i" by simp
    from Cons.IH [OF probe(1)] rest 2 show ?thesis unfolding x by simp
  qed
qed

lemma filter_only_at:
  assumes "i < length xs" "P (xs ! i)"
    and "\<forall>x \<in> set (take i xs). \<not> P x" "\<forall>x \<in> set (drop (Suc i) xs). \<not> P x"
  shows "filter P xs = [xs ! i]"
proof -
  have "xs = take i xs @ xs ! i # drop (Suc i) xs" using assms(1) by (rule id_take_nth_drop)
  then have "filter P xs = filter P (take i xs) @ filter P (xs ! i # drop (Suc i) xs)"
    by (metis filter_append)
  moreover have "filter P (take i xs) = []" using assms(3) by (simp add: filter_empty_conv)
  moreover have "filter P (drop (Suc i) xs) = []" using assms(4) by (simp add: filter_empty_conv)
  ultimately show ?thesis using assms(2) by simp
qed

lemma launched_filter:
  assumes "length envs = length as" "idOnlyAt i as"
  shows "filter (\<lambda>(a, env). ID a = ID (as ! i)) (zip as envs) = [(as ! i, envs ! i)]"
proof -
  from assms have i: "i < length (zip as envs)" by (simp add: idOnlyAt_def)
  have "\<forall>x \<in> set (take i (zip as envs)). \<not> (\<lambda>(a, env). ID a = ID (as ! i)) x"
  proof
    fix x assume "x \<in> set (take i (zip as envs))"
    then have "(fst x, snd x) \<in> set (zip (take i as) (take i envs))" by (simp add: take_zip)
    then have "fst x \<in> set (take i as)" by (rule set_zip_leftD)
    then have "ID (fst x) \<in> set (take i (map ID as))" by (simp add: take_map)
    with assms(2) show "\<not> (\<lambda>(a, env). ID a = ID (as ! i)) x"
      by (cases x) (auto simp: idOnlyAt_def)
  qed
  moreover have "\<forall>x \<in> set (drop (Suc i) (zip as envs)). \<not> (\<lambda>(a, env). ID a = ID (as ! i)) x"
  proof
    fix x assume "x \<in> set (drop (Suc i) (zip as envs))"
    then have "(fst x, snd x) \<in> set (zip (drop (Suc i) as) (drop (Suc i) envs))"
      by (simp add: drop_zip)
    then have "fst x \<in> set (drop (Suc i) as)" by (rule set_zip_leftD)
    then have "ID (fst x) \<in> set (drop (Suc i) (map ID as))" by (simp add: drop_map)
    with assms(2) show "\<not> (\<lambda>(a, env). ID a = ID (as ! i)) x"
      by (cases x) (auto simp: idOnlyAt_def)
  qed
  ultimately have "filter (\<lambda>(a, env). ID a = ID (as ! i)) (zip as envs) = [zip as envs ! i]"
    using i by (intro filter_only_at) (simp_all add: idOnlyAt_def)
  with i show ?thesis by simp
qed

lemma mset_singleton_list: "mset xs = mset [x] \<Longrightarrow> xs = [x]"
  by (cases xs) auto

text \<open>
  Claim C9, as amended. In a health-probe round over a pool (no other pool operation
  in between), for every registered analyzer, live or not, whose identifier no other
  registered analyzer shares: the round holds a probe of it, and whatever the order in
  which the probes finish, after the round its liveness is true if and only if its GET
  on \<^verbatim>\<open>url + "/health"\<close> returned status 200 (false on any other status, transport error,
  timeout or request-construction failure), its other fields being unchanged.
\<close>

theorem probe_round_sets_liveness:
  assumes "length envs = length (analyzers p)"
    and "mset sched = mset (launchedProbes envs p)"
    and "idOnlyAt i (analyzers p)"
  shows "(analyzers p ! i, envs ! i) \<in> set sched
       \<and> analyzers (runProbes sched p) ! i
           = (analyzers p ! i)\<lparr>Active := (envs ! i = ProbeDone (Response 200))\<rparr>"
proof -
  let ?P = "\<lambda>(a, env). ID a = ID (analyzers p ! i)"
  have "mset (filter ?P sched) = mset (filter ?P (zip (analyzers p) envs))"
    using assms(2) by (simp add: launchedProbes_def)
  also have "\<dots> = mset [(analyzers p ! i, envs ! i)]"
    using launched_filter [OF assms(1,3)] by simp
  finally have single: "filter ?P sched = [(analyzers p ! i, envs ! i)]"
    by (rule mset_singleton_list)
  then have "(analyzers p ! i, envs ! i) \<in> set (filter ?P sched)" by simp
  then have "(analyzers p ! i, envs ! i) \<in> set sched" by simp
  with runProbes_single [OF assms(3) single] show ?thesis by simp
qed

theorem probe_round_sets_liveness_witness:
  "length twoProbes = length (analyzers twoPool)
   \<and> mset (rev (launchedProbes twoProbes twoPool)) = mset (launchedProbes twoProbes twoPool)
   \<and> idOnlyAt 1 (analyzers twoPool)
   \<and> \<not> Active (analyzers twoPool ! 1)
   \<and> twoProbes ! 1 = ProbeDone (Response 200)
   \<and> Active (analyzers (runProbes (rev (launchedProbes twoProbes twoPool)) twoPool) ! 1)
   \<and> idOnlyAt 0 (analyzers twoPool)
   \<and> Active (analyzers twoPool ! 0)
   \<and> twoProbes ! 0 = ProbeDone (Response 500)
   \<and> \<not> Active (analyzers (runProbes (rev (launchedProbes twoProbes twoPool)) twoPool) ! 0)"
  using
    probe_round_sets_liveness [of twoProbes twoPool "rev (launchedProbes twoProbes twoPool)" 1]
    probe_round_sets_liveness [of twoProbes twoPool "rev (launchedProbes twoProbes twoPool)" 0]
  by (simp add: twoPool_def twoProbes_def idOnlyAt_def pool_eval)

text \<open>
  Without the restriction to unshared identifiers the property fails: when two
  registered analyzers share an identifier, the probe of the second one reaches the
  first. The second entry's probe meets status 500, and the entry is still live after
  that probe and after the whole round.
\<close>

theorem probe_duplicate_id_counterexample:
  "length (analyzers dupPool) = 2
   \<and> Active (analyzers dupPool ! 1)
   \<and> Active (analyzers
        (checkAnalyzerHealth (ProbeDone (Response 500)) (analyzers dupPool ! 1) dupPool) ! 1)
   \<and> Active (analyzers
        (checkAllAnalyzers [ProbeDone (Response 200), ProbeDone (Response 500)] dupPool) ! 1)"
  by (simp add: dupPool_def pool_eval)

section \<open>The selector\<close>

lemma sumLoop_sum: "sumLoop as t = t + weightSum as"
  by (induction as arbitrary: t) (auto simp: weightSum_def)

lemma cumWeight_Cons_0 [simp]: "cumWeight (a # as) 0 = Weight a"
  by (simp add: cumWeight_def)

lemma cumWeight_Cons_Suc [simp]: "cumWeight (a # as) (Suc i) = Weight a + cumWeight as i"
  by (simp add: cumWeight_def)

lemma find_map_index: "List.find P (map f xs) = map_option f (List.find (\<lambda>x. P (f x)) xs)"
  by (induction xs) auto

lemma upt_Suc_shift: "[0..<Suc n] = 0 # map Suc [0..<n]"
  by (simp add: upt_conv_Cons map_Suc_upt del: upt_Suc)

lemma upt2: "[0..<2] = [0, 1]"
  by (simp add: upt_conv_Cons)

text \<open>The second loop returns the first entry whose running total reaches \<open>r\<close>.\<close>

lemma pickLoop_find:
  "pickLoop r as c =
     map_option (\<lambda>i. as ! i) (List.find (\<lambda>i. r \<le> c + cumWeight as i) [0..<length as])"
proof (induction as arbitrary: c)
  case Nil
  then show ?case by simp
next
  case (Cons a as)
  have "List.find (\<lambda>i. r \<le> c + cumWeight (a # as) i) [0..<length (a # as)] =
          (if r \<le> c + Weight a then Some 0
           else map_option Suc
                  (List.find (\<lambda>i. r \<le> c + Weight a + cumWeight as i) [0..<length as]))"
    by (simp add: upt_Suc_shift find_map_index add.assoc del: upt_Suc)
  then show ?case
    by (simp add: Cons.IH option.map_comp comp_def del: upt_Suc)
qed

lemma pickLoop_firstWithin: "pickLoop r as 0 = firstWithin (\<le>) r as"
  by (simp add: pickLoop_find firstWithin_def)

lemma pickLoop_mem: "pickLoop r as c = Some a \<Longrightarrow> a \<in> set as"
  by (induction as arbitrary: c) (auto split: if_splits)

lemma cumWeight_last: "as \<noteq> [] \<Longrightarrow> cumWeight as (length as - 1) = weightSum as"
  by (cases as) (simp_all add: cumWeight_def weightSum_def)

lemma firstWithin_exists:
  assumes "as \<noteq> []" "r \<le> weightSum as"
  shows "\<exists>a. firstWithin (\<le>) r as = Some a"
proof -
  have "length as - 1 \<in> set [0..<length as]" using assms(1) by simp
  moreover have "r \<le> cumWeight as (length as - 1)"
    using assms(2) cumWeight_last [OF assms(1)] by simp
  ultimately have "List.find (\<lambda>i. r \<le> cumWeight as i) [0..<length as] \<noteq> None"
    unfolding find_None_iff by blast
  then show ?thesis by (auto simp: firstWithin_def)
qed

lemma zero_weights:
  "\<forall>a\<in>set as. 0 \<le> Weight a \<Longrightarrow> weightSum as = 0 \<Longrightarrow> \<forall>a\<in>set as. Weight a = 0"
proof (induction as)
  case Nil
  then show ?case by simp
next
  case (Cons b bs)
  have nonneg: "0 \<le> weightSum bs"
    unfolding weightSum_def using Cons.prems(1) by (intro sum_list_nonneg) auto
  from Cons.prems have sum0: "Weight b + weightSum bs = 0" and b: "0 \<le> Weight b"
    by (simp_all add: weightSum_def)
  from sum0 b nonneg have "Weight b = 0" and "weightSum bs = 0" by linarith+
  with Cons show ?case by simp
qed

text \<open>On a non-empty slice the selector returns an entry of the slice: it does not panic.\<close>

lemma selectAnalyzerRandom_total:
  "as \<noteq> [] \<Longrightarrow> \<exists>a. selectAnalyzerRandom rnd as = Inr a \<and> a \<in> set as"
  by (cases as) (auto simp: selectAnalyzerRandom_def dest: pickLoop_mem split: option.splits)

text \<open>
  Claim C2, as amended. For every non-empty slice of analyzers: if the slice has exactly
  one element, that element is returned whatever the draw (no draw is made); otherwise,
  for every drawn value \<open>r = rnd * W\<close> in \<open>[0, W)\<close>, where \<open>W\<close> is the sum of the slice's
  weights, \<^verbatim>\<open>selectAnalyzerRandom\<close> returns the first entry in slice order whose
  cumulative weight \<open>c\<close> satisfies \<open>r \<le> c\<close> (the comparison of the source is \<^verbatim>\<open><=\<close>, not
  \<^verbatim>\<open><\<close>); and if \<open>W = 0\<close> and no weight is negative, the first element is returned.
\<close>

theorem selectAnalyzerRandom_first_reaching:
  assumes "as \<noteq> []"
  shows "(length as = 1 \<longrightarrow> (\<forall>rnd. selectAnalyzerRandom rnd as = Inr (as ! 0)))
       \<and> (length as \<noteq> 1 \<and> 0 \<le> rnd * weightSum as \<and> rnd * weightSum as < weightSum as \<longrightarrow>
            (\<exists>a. firstWithin (\<le>) (rnd * weightSum as) as = Some a
                 \<and> selectAnalyzerRandom rnd as = Inr a))
       \<and> (weightSum as = 0 \<and> (\<forall>a\<in>set as. 0 \<le> Weight a) \<longrightarrow>
            selectAnalyzerRandom rnd as = Inr (as ! 0))"
proof (intro conjI impI)
  show "\<forall>rnd. selectAnalyzerRandom rnd as = Inr (as ! 0)" if "length as = 1"
    using that by (simp add: selectAnalyzerRandom_def)
next
  assume h: "length as \<noteq> 1 \<and> 0 \<le> rnd * weightSum as \<and> rnd * weightSum as < weightSum as"
  then have "rnd * weightSum as \<le> weightSum as" by linarith
  from firstWithin_exists [OF assms this]
  obtain a where a: "firstWithin (\<le>) (rnd * weightSum as) as = Some a" by blast
  then have "selectAnalyzerRandom rnd as = Inr a"
    using h by (simp add: selectAnalyzerRandom_def sumLoop_sum pickLoop_firstWithin)
  with a show "\<exists>a. firstWithin (\<le>) (rnd * weightSum as) as = Some a
                 \<and> selectAnalyzerRandom rnd as = Inr a" by blast
next
  assume h: "weightSum as = 0 \<and> (\<forall>a\<in>set as. 0 \<le> Weight a)"
  obtain b bs where as: "as = b # bs" using assms by (cases as) auto
  from h have "\<forall>a\<in>set as. 0 \<le> Weight a" and "weightSum as = 0" by simp_all
  from zero_weights [OF this] have "Weight b = 0" unfolding as by simp
  then show "selectAnalyzerRandom rnd as = Inr (as ! 0)"
    using h by (simp add: selectAnalyzerRandom_def sumLoop_sum as)
qed

theorem selectAnalyzerRandom_first_reaching_witness:
  "evenPair \<noteq> [] \<and> length evenPair \<noteq> 1 \<and> 0 \<le> (1/2) * weightSum evenPair
   \<and> (1/2) * weightSum evenPair < weightSum evenPair
   \<and> firstWithin (\<le>) ((1/2) * weightSum evenPair) evenPair = Some (evenPair ! 0)
   \<and> selectAnalyzerRandom (1/2) evenPair = Inr (evenPair ! 0)
   \<and> loneList \<noteq> [] \<and> length loneList = 1
   \<and> selectAnalyzerRandom (1/2) loneList = Inr (loneList ! 0)
   \<and> zeroPair \<noteq> [] \<and> weightSum zeroPair = 0
   \<and> 0 \<le> Weight (zeroPair ! 0) \<and> 0 \<le> Weight (zeroPair ! 1)
   \<and> selectAnalyzerRandom (1/2) zeroPair = Inr (zeroPair ! 0)"
  using selectAnalyzerRandom_first_reaching [of evenPair "1/2"]
    selectAnalyzerRandom_first_reaching [of loneList "1/2"]
    selectAnalyzerRandom_first_reaching [of zeroPair "1/2"]
  by (simp add: evenPair_def loneList_def zeroPair_def weightSum_def firstWithin_def
        cumWeight_def upt2)

text \<open>
  With the strict comparison the property fails: with two entries of weight 1 and the
  draw \<open>r = 1\<close> (in \<open>[0, 2)\<close>), the first entry whose cumulative weight satisfies \<open>r < c\<close>
  is the second one, and the selector returns the first.
\<close>

theorem selector_strict_counterexample:
  "length evenPair \<noteq> 1 \<and> weightSum evenPair = 2 \<and> 0 \<le> (1/2) * weightSum evenPair
   \<and> (1/2) * weightSum evenPair < weightSum evenPair
   \<and> firstWithin (<) ((1/2) * weightSum evenPair) evenPair = Some (evenPair ! 1)
   \<and> selectAnalyzerRandom (1/2) evenPair = Inr (evenPair ! 0)
   \<and> evenPair ! 0 \<noteq> evenPair ! 1"
  by (simp add: evenPair_def weightSum_def firstWithin_def cumWeight_def
        selectAnalyzerRandom_def upt2)

text \<open>
  The loop returns a zero-weight entry only when the draw does not exceed the running
  total it starts from, and then at the first entry.
\<close>

lemma pickLoop_zero_weight:
  "pickLoop r as c = Some a \<Longrightarrow> Weight a = 0 \<Longrightarrow> r \<le> c \<and> as \<noteq> [] \<and> a = as ! 0"
proof (induction as arbitrary: c)
  case Nil
  then show ?case by simp
next
  case (Cons b bs)
  show ?case
  proof (cases "r \<le> c + Weight b")
    case True
    with Cons.prems show ?thesis by simp
  next
    case False
    with Cons.prems have "pickLoop r bs (c + Weight b) = Some a" by simp
    from Cons.IH [OF this Cons.prems(2)] False show ?thesis by simp
  qed
qed

text \<open>
  Claim C3, as amended. For every slice of live analyzers containing at least two
  entries and at least one entry with positive weight, and for every drawn value
  \<open>r = rnd * W\<close> in \<open>[0, W)\<close>, \<^verbatim>\<open>selectAnalyzerRandom\<close> returns an entry, and the weight of
  that entry is 0 only if \<open>r = 0\<close> and the entry is the first of the slice. So for every
  \<open>r\<close> in the open interval \<open>(0, W)\<close> a zero-weight entry is never picked.
\<close>

theorem selectAnalyzerRandom_skips_zero_weight:
  assumes "2 \<le> length as" and "\<exists>a\<in>set as. 0 < Weight a"
    and "0 \<le> rnd * weightSum as" and "rnd * weightSum as < weightSum as"
  shows "\<exists>a. selectAnalyzerRandom rnd as = Inr a
            \<and> (Weight a = 0 \<longrightarrow> rnd * weightSum as = 0 \<and> a = as ! 0)
            \<and> (0 < rnd * weightSum as \<longrightarrow> Weight a \<noteq> 0)"
proof -
  from assms(1) have ne: "as \<noteq> []" and len: "length as \<noteq> 1" by auto
  from assms(4) have "rnd * weightSum as \<le> weightSum as" by linarith
  from firstWithin_exists [OF ne this]
  obtain a where a: "pickLoop (rnd * weightSum as) as 0 = Some a"
    unfolding pickLoop_firstWithin by blast
  have sel: "selectAnalyzerRandom rnd as = Inr a"
    using a len by (simp add: selectAnalyzerRandom_def sumLoop_sum)
  have zero: "rnd * weightSum as = 0 \<and> a = as ! 0" if "Weight a = 0"
    using pickLoop_zero_weight [OF a that] assms(3) by simp
  then have "Weight a \<noteq> 0" if "0 < rnd * weightSum as"
    using that by auto
  with sel zero show ?thesis by blast
qed

theorem selectAnalyzerRandom_skips_zero_weight_witness:
  "2 \<le> length zeroFirst \<and> zeroFirst ! 1 \<in> set zeroFirst \<and> 0 < Weight (zeroFirst ! 1)
   \<and> 0 \<le> (1/2) * weightSum zeroFirst \<and> 0 < (1/2) * weightSum zeroFirst
   \<and> (1/2) * weightSum zeroFirst < weightSum zeroFirst
   \<and> selectAnalyzerRandom (1/2) zeroFirst = Inr (zeroFirst ! 1)
   \<and> Weight (zeroFirst ! 1) \<noteq> 0
   \<and> 0 \<le> 0 * weightSum zeroFirst \<and> 0 * weightSum zeroFirst < weightSum zeroFirst
   \<and> selectAnalyzerRandom 0 zeroFirst = Inr (zeroFirst ! 0)
   \<and> Weight (zeroFirst ! 0) = 0 \<and> 0 * weightSum zeroFirst = 0"
  using selectAnalyzerRandom_skips_zero_weight [of zeroFirst "1/2"]
    selectAnalyzerRandom_skips_zero_weight [of zeroFirst 0]
  by (simp add: zeroFirst_def weightSum_def selectAnalyzerRandom_def)

text \<open>
  On the closed end of the interval the property fails: with a zero-weight entry first,
  a positive-weight entry second and the draw \<open>r = 0\<close> (in \<open>[0, 1)\<close>), the selector
  returns the zero-weight entry.
\<close>

theorem selector_zero_weight_counterexample:
  "2 \<le> length zeroFirst \<and> zeroFirst ! 1 \<in> set zeroFirst \<and> 0 < Weight (zeroFirst ! 1)
   \<and> 0 \<le> 0 * weightSum zeroFirst \<and> 0 * weightSum zeroFirst < weightSum zeroFirst
   \<and> selectAnalyzerRandom 0 zeroFirst = Inr (zeroFirst ! 0)
   \<and> Weight (zeroFirst ! 0) = 0"
  by (simp add: zeroFirst_def weightSum_def selectAnalyzerRandom_def)

section \<open>The dispatch engine\<close>

subsection \<open>EnqueuePacket\<close>

text \<open>
  Claim C8. For every call to \<^verbatim>\<open>EnqueuePacket\<close>: if the ingress queue has room (a
  worker is waiting on it and takes the packet directly, or no worker is waiting and
  its buffer is not full, where the packet is appended), the packet is admitted,
  \<^verbatim>\<open>TotalPacketsReceived\<close> is incremented by one, nothing else changes, and true is
  returned; if the queue is full (no worker is waiting and the buffer has no room, as
  always with capacity zero), the queue is unchanged, \<^verbatim>\<open>PacketsDropped\<close> is incremented
  by one, nothing else changes, and false is returned.
\<close>

theorem EnqueuePacket_admits_or_drops:
  "(waiting \<longrightarrow>
      EnqueuePacket waiting packet d =
        (d\<lparr>workQueue := (workQueue d)\<lparr>handedOver := handedOver (workQueue d) @ [packet]\<rparr>,
           metrics := (metrics d)\<lparr>TotalPacketsReceived := TotalPacketsReceived (metrics d) + 1\<rparr>\<rparr>,
         True))
   \<and> (\<not> waiting \<and> length (buffer (workQueue d)) < capacity (workQueue d) \<longrightarrow>
      EnqueuePacket waiting packet d =
        (d\<lparr>workQueue := (workQueue d)\<lparr>buffer := buffer (workQueue d) @ [packet]\<rparr>,
           metrics := (metrics d)\<lparr>TotalPacketsReceived := TotalPacketsReceived (metrics d) + 1\<rparr>\<rparr>,
         True))
   \<and> (\<not> waiting \<and> \<not> length (buffer (workQueue d)) < capacity (workQueue d) \<longrightarrow>
      EnqueuePacket waiting packet d =
        (d\<lparr>metrics := (metrics d)\<lparr>PacketsDropped := PacketsDropped (metrics d) + 1\<rparr>\<rparr>, False))"
  by (simp add: EnqueuePacket_def trySend_def incReceived_def incDropped_def)

theorem EnqueuePacket_admits_or_drops_witness:
  "capacity (workQueue unbuffered) = 0
   \<and> snd (EnqueuePacket True examplePacket unbuffered)
   \<and> handedOver (workQueue (fst (EnqueuePacket True examplePacket unbuffered))) = [examplePacket]
   \<and> buffer (workQueue (fst (EnqueuePacket True examplePacket unbuffered))) = []
   \<and> TotalPacketsReceived (metrics (fst (EnqueuePacket True examplePacket unbuffered))) = 1
   \<and> PacketsDropped (metrics (fst (EnqueuePacket True examplePacket unbuffered))) = 0
   \<and> \<not> length (buffer (workQueue unbuffered)) < capacity (workQueue unbuffered)
   \<and> \<not> snd (EnqueuePacket False examplePacket unbuffered)
   \<and> PacketsDropped (metrics (fst (EnqueuePacket False examplePacket unbuffered))) = 1
   \<and> TotalPacketsReceived (metrics (fst (EnqueuePacket False examplePacket unbuffered))) = 0
   \<and> length (buffer (workQueue buffered)) < capacity (workQueue buffered)
   \<and> snd (EnqueuePacket False examplePacket buffered)
   \<and> buffer (workQueue (fst (EnqueuePacket False examplePacket buffered))) = [examplePacket]
   \<and> TotalPacketsReceived (metrics (fst (EnqueuePacket False examplePacket buffered))) = 1
   \<and> PacketsDropped (metrics (fst (EnqueuePacket False examplePacket buffered))) = 0
   \<and> \<not> length (buffer (workQueue fullIngress)) < capacity (workQueue fullIngress)
   \<and> \<not> snd (EnqueuePacket False examplePacket fullIngress)
   \<and> buffer (workQueue (fst (EnqueuePacket False examplePacket fullIngress))) = [examplePacket]
   \<and> TotalPacketsReceived (metrics (fst (EnqueuePacket False examplePacket fullIngress))) = 1
   \<and> PacketsDropped (metrics (fst (EnqueuePacket False examplePacket fullIngress))) = 1"
  using EnqueuePacket_admits_or_drops [of True examplePacket unbuffered]
    EnqueuePacket_admits_or_drops [of False examplePacket unbuffered]
    EnqueuePacket_admits_or_drops [of False examplePacket buffered]
    EnqueuePacket_admits_or_drops [of False examplePacket fullIngress]
  by (simp add: fullIngress_def engine_eval)

subsection \<open>processPacket\<close>

lemma retryOrDrop_cases:
  "retryOrDrop waiting packet retryCount d =
     (if retryCount < maxRetries d then
        (if waiting then
           d\<lparr>retryQueue := (retryQueue d)\<lparr>handedOver := handedOver (retryQueue d) @
               [packet\<lparr>Metadata :=
                  Some ((case Metadata packet of None \<Rightarrow> Map.empty | Some m \<Rightarrow> m)
                          (''retryCount'' \<mapsto> IntVal (retryCount + 1)))\<rparr>]\<rparr>\<rparr>
         else if length (buffer (retryQueue d)) < capacity (retryQueue d) then
           d\<lparr>retryQueue := (retryQueue d)\<lparr>buffer := buffer (retryQueue d) @
               [packet\<lparr>Metadata :=
                  Some ((case Metadata packet of None \<Rightarrow> Map.empty | Some m \<Rightarrow> m)
                          (''retryCount'' \<mapsto> IntVal (retryCount + 1)))\<rparr>]\<rparr>\<rparr>
         else d\<lparr>metrics := (metrics d)\<lparr>PacketsDropped := PacketsDropped (metrics d) + 1\<rparr>\<rparr>)
      else d\<lparr>metrics := (metrics d)\<lparr>PacketsDropped := PacketsDropped (metrics d) + 1\<rparr>\<rparr>)"
  by (simp add: retryOrDrop_def trySend_def stampRetryCount_def incDropped_def)

text \<open>
  \<^verbatim>\<open>processPacket\<close> always returns, and in one of two ways: through the failure block,
  or by counting the packet as sent to the selected analyzer.
\<close>

lemma processPacket_result:
  "(\<exists>p'. processPacket rnd env waiting packet n (d, p)
           = Inr (retryOrDrop waiting packet n d, p'))
   \<or> (\<exists>ident p'. processPacket rnd env waiting packet n (d, p)
                   = Inr (d\<lparr>metrics := incSent ident (metrics d)\<rparr>, p'))"
proof (cases "GetActiveAnalyzers p = []")
  case True
  then have "processPacket rnd env waiting packet n (d, p)
               = Inr (retryOrDrop waiting packet n d, p)"
    by (simp add: processPacket_def)
  then show ?thesis by blast
next
  case False
  from selectAnalyzerRandom_total [OF this] obtain a where
    a: "selectAnalyzerRandom rnd (GetActiveAnalyzers p) = Inr a" by blast
  obtain p' err where send: "SendLogPacket env a p = (p', err)" by (cases "SendLogPacket env a p")
  show ?thesis
  proof (cases err)
    case None
    with False a send
    have "processPacket rnd env waiting packet n (d, p)
            = Inr (d\<lparr>metrics := incSent (ID a) (metrics d)\<rparr>, p')"
      by (simp add: processPacket_def)
    then show ?thesis by blast
  next
    case (Some e)
    with False a send
    have "processPacket rnd env waiting packet n (d, p)
            = Inr (retryOrDrop waiting packet n d, p')"
      by (simp add: processPacket_def)
    then show ?thesis by blast
  qed
qed

lemma processPacket_on_failure:
  "dispatchFails rnd env p \<Longrightarrow>
     \<exists>p'. processPacket rnd env waiting packet retryCount (d, p)
            = Inr (retryOrDrop waiting packet retryCount d, p')"
  by (auto simp: dispatchFails_def processPacket_def Let_def
           split: sum.splits prod.splits option.splits)

text \<open>
  Claim C7. Whenever \<^verbatim>\<open>processPacket\<close> reaches a failure (empty list of active
  analyzers, or an error from \<^verbatim>\<open>SendLogPacket\<close>) it returns, and: with
  \<^verbatim>\<open>retryCount < maxRetries\<close> the packet, its metadata stamped with retry count
  \<^verbatim>\<open>retryCount + 1\<close>, is offered to the retry queue without blocking; it is taken
  directly by the retry worker if that is waiting, appended to the buffer if no
  receiver is waiting and the buffer has room, in both cases with no counter changed,
  and otherwise (the retry queue is full) \<^verbatim>\<open>PacketsDropped\<close> is incremented and the
  packet is not enqueued; with \<^verbatim>\<open>retryCount >= maxRetries\<close>, \<^verbatim>\<open>PacketsDropped\<close> is
  incremented and the packet is not enqueued.
\<close>

theorem processPacket_retry_or_drop:
  assumes "dispatchFails rnd env p"
  shows "\<exists>d' p'. processPacket rnd env waiting packet retryCount (d, p) = Inr (d', p')
     \<and> (retryCount < maxRetries d \<and> waiting \<longrightarrow>
          d' = d\<lparr>retryQueue := (retryQueue d)\<lparr>handedOver := handedOver (retryQueue d) @
               [packet\<lparr>Metadata :=
                  Some ((case Metadata packet of None \<Rightarrow> Map.empty | Some m \<Rightarrow> m)
                          (''retryCount'' \<mapsto> IntVal (retryCount + 1)))\<rparr>]\<rparr>\<rparr>)
     \<and> (retryCount < maxRetries d \<and> \<not> waiting
          \<and> length (buffer (retryQueue d)) < capacity (retryQueue d) \<longrightarrow>
          d' = d\<lparr>retryQueue := (retryQueue d)\<lparr>buffer := buffer (retryQueue d) @
               [packet\<lparr>Metadata :=
                  Some ((case Metadata packet of None \<Rightarrow> Map.empty | Some m \<Rightarrow> m)
                          (''retryCount'' \<mapsto> IntVal (retryCount + 1)))\<rparr>]\<rparr>\<rparr>)
     \<and> (retryCount < maxRetries d \<and> \<not> waiting
          \<and> \<not> length (buffer (retryQueue d)) < capacity (retryQueue d) \<longrightarrow>
          d' = d\<lparr>metrics := (metrics d)\<lparr>PacketsDropped := PacketsDropped (metrics d) + 1\<rparr>\<rparr>)
     \<and> (\<not> retryCount < maxRetries d \<longrightarrow>
          d' = d\<lparr>metrics := (metrics d)\<lparr>PacketsDropped := PacketsDropped (metrics d) + 1\<rparr>\<rparr>)"
proof -
  from processPacket_on_failure [OF assms] obtain p' where
    "processPacket rnd env waiting packet retryCount (d, p)
       = Inr (retryOrDrop waiting packet retryCount d, p')"
    by blast
  then show ?thesis by (simp add: retryOrDrop_cases)
qed

theorem processPacket_retry_or_drop_witness:
  "dispatchFails 0 (SendDone (Response 200)) emptyPool
   \<and> (0::int) < maxRetries unbuffered
   \<and> capacity (retryQueue unbuffered) = 0
   \<and> map assertRetryCount (handedOver (retryQueue (fst (projr
        (processPacket 0 (SendDone (Response 200)) True examplePacket 0
           (unbuffered, emptyPool)))))) = [Inr 1]
   \<and> PacketsDropped (metrics (fst (projr
        (processPacket 0 (SendDone (Response 200)) True examplePacket 0
           (unbuffered, emptyPool))))) = 0
   \<and> (0::int) < maxRetries buffered
   \<and> length (buffer (retryQueue buffered)) < capacity (retryQueue buffered)
   \<and> map assertRetryCount (buffer (retryQueue (fst (projr
        (processPacket 0 (SendDone (Response 200)) False examplePacket 0
           (buffered, emptyPool)))))) = [Inr 1]
   \<and> PacketsDropped (metrics (fst (projr
        (processPacket 0 (SendDone (Response 200)) False examplePacket 0
           (buffered, emptyPool))))) = 0
   \<and> (0::int) < maxRetries fullRetry
   \<and> \<not> length (buffer (retryQueue fullRetry)) < capacity (retryQueue fullRetry)
   \<and> PacketsDropped (metrics (fst (projr
        (processPacket 0 (SendDone (Response 200)) False examplePacket 0
           (fullRetry, emptyPool))))) = 1
   \<and> length (buffer (retryQueue (fst (projr
        (processPacket 0 (SendDone (Response 200)) False examplePacket 0
           (fullRetry, emptyPool)))))) = 1
   \<and> \<not> (3::int) < maxRetries buffered
   \<and> PacketsDropped (metrics (fst (projr
        (processPacket 0 (SendDone (Response 200)) True examplePacket 3
           (buffered, emptyPool))))) = 1
   \<and> buffer (retryQueue (fst (projr
        (processPacket 0 (SendDone (Response 200)) True examplePacket 3
           (buffered, emptyPool))))) = []
   \<and> handedOver (retryQueue (fst (projr
        (processPacket 0 (SendDone (Response 200)) True examplePacket 3
           (buffered, emptyPool))))) = []"
  using processPacket_retry_or_drop
      [of 0 "SendDone (Response 200)" emptyPool True examplePacket 0 unbuffered]
    processPacket_retry_or_drop
      [of 0 "SendDone (Response 200)" emptyPool False examplePacket 0 buffered]
    processPacket_retry_or_drop
      [of 0 "SendDone (Response 200)" emptyPool False examplePacket 0 fullRetry]
    processPacket_retry_or_drop
      [of 0 "SendDone (Response 200)" emptyPool True examplePacket 3 buffered]
  by (simp add: dispatchFails_def fullRetry_def engine_eval)

subsection \<open>Invariants of the runs\<close>

lemma retryStamped_stamp: "retryStamped (stampRetryCount n packet)"
  by (simp add: retryStamped_def stampRetryCount_def)

lemma retryStamped_assert: "retryStamped packet \<Longrightarrow> \<exists>n. assertRetryCount packet = Inr n"
  by (auto simp: retryStamped_def assertRetryCount_def split: option.splits any.splits)

text \<open>A receive takes one packet out of those the channel holds.\<close>

lemma recv_Some:
  assumes "recv woken c = Some (x, c')"
  shows "pending c' + 1 = pending c"
    and "x \<in> set (buffer c) \<union> set (handedOver c)"
    and "set (buffer c') \<subseteq> set (buffer c)"
    and "set (handedOver c') \<subseteq> set (handedOver c)"
  using assms by (auto simp: recv_def pending_def split: if_splits list.splits)

lemma retryOrDrop_surplus: "surplus (retryOrDrop waiting packet n d) = surplus d + 1"
  by (simp add: retryOrDrop_def surplus_def queued_def pending_def trySend_def incDropped_def)

lemma retryOrDrop_stamped:
  "retryQueueStamped d \<Longrightarrow> retryQueueStamped (retryOrDrop waiting packet n d)"
  by (simp add: retryOrDrop_def retryQueueStamped_def trySend_def retryStamped_stamp)

lemma incSent_surplus: "surplus (d\<lparr>metrics := incSent ident (metrics d)\<rparr>) = surplus d + 1"
  by (simp add: surplus_def queued_def incSent_def)

lemma metrics_update_stamped: "retryQueueStamped (d\<lparr>metrics := m\<rparr>) = retryQueueStamped d"
  by (simp add: retryQueueStamped_def)

text \<open>
  A \<^verbatim>\<open>processPacket\<close> call accounts for exactly one packet (sent, dropped or queued for
  retry) and puts only stamped packets on the retry queue.
\<close>

lemma processPacket_invariants:
  "\<exists>d' p'. processPacket rnd env waiting packet n (d, p) = Inr (d', p')
       \<and> surplus d' = surplus d + 1
       \<and> (retryQueueStamped d \<longrightarrow> retryQueueStamped d')"
  using processPacket_result [of rnd env waiting packet n d p]
  by (auto simp: retryOrDrop_surplus incSent_surplus retryOrDrop_stamped metrics_update_stamped)

lemma step_invariants:
  assumes "retryQueueStamped (fst s)"
  shows "\<exists>s'. step e s = Inr s' \<and> retryQueueStamped (fst s')
              \<and> surplus (fst s') = surplus (fst s) + rejectedBy e s"
proof -
  obtain d p where s: "s = (d, p)" by (cases s)
  show ?thesis
  proof (cases e)
    case (Enqueue waiting packet)
    then show ?thesis using assms unfolding s
      by (simp add: EnqueuePacket_def trySend_def surplus_def queued_def pending_def
            incReceived_def incDropped_def retryQueueStamped_def)
  next
    case (Work woken rnd env waiting)
    show ?thesis
    proof (cases "recv woken (workQueue d)")
      case None
      then show ?thesis using assms unfolding s Work by (simp add: workerStep_def)
    next
      case (Some taken)
      obtain packet q where taken: "taken = (packet, q)" by (cases taken)
      let ?d = "d\<lparr>workQueue := q\<rparr>"
      from recv_Some(1) [OF Some [unfolded taken]]
      have "surplus ?d + 1 = surplus d" by (simp add: surplus_def queued_def)
      moreover have "retryQueueStamped ?d" using assms unfolding s
        by (simp add: retryQueueStamped_def)
      ultimately show ?thesis
        using processPacket_invariants [of rnd env waiting packet 0 ?d p] Some
        unfolding s Work taken by (auto simp: workerStep_def)
    qed
  next
    case (Retry woken rnd env waiting)
    show ?thesis
    proof (cases "recv woken (retryQueue d)")
      case None
      then show ?thesis using assms unfolding s Retry by (simp add: retryWorkerStep_def)
    next
      case (Some taken)
      obtain packet q where taken: "taken = (packet, q)" by (cases taken)
      note r = recv_Some [OF Some [unfolded taken]]
      let ?d = "d\<lparr>retryQueue := q\<rparr>"
      from assms r(2) have "retryStamped packet" unfolding s
        by (auto simp: retryQueueStamped_def list_all_iff)
      from retryStamped_assert [OF this] obtain n where n: "assertRetryCount packet = Inr n"
        by blast
      from r(1) have "surplus ?d + 1 = surplus d" by (simp add: surplus_def queued_def)
      moreover have "retryQueueStamped ?d" using assms r(3,4) unfolding s
        by (auto simp: retryQueueStamped_def list_all_iff)
      ultimately show ?thesis
        using processPacket_invariants [of rnd env waiting packet n ?d p] Some n
        unfolding s Retry taken by (auto simp: retryWorkerStep_def)
    qed
  qed (use assms in \<open>simp_all add: s\<close>)
qed

lemma run_invariants:
  "retryQueueStamped (fst s) \<Longrightarrow>
     \<exists>s'. run es s = Inr s' \<and> retryQueueStamped (fst s')
          \<and> surplus (fst s') = surplus (fst s) + rejected es s"
proof (induction es arbitrary: s)
  case Nil
  then show ?case by simp
next
  case (Cons e es)
  from step_invariants [OF Cons.prems, of e] obtain s1 where
    s1: "step e s = Inr s1" "retryQueueStamped (fst s1)"
        "surplus (fst s1) = surplus (fst s) + rejectedBy e s" by blast
  from Cons.IH [OF s1(2)] obtain s' where
    "run es s1 = Inr s'" "retryQueueStamped (fst s')"
    "surplus (fst s') = surplus (fst s1) + rejected es s1" by blast
  with s1 show ?case by simp
qed

lemma New_invariants:
  "retryQueueStamped (NewLogDistributor q w r i)" "surplus (NewLogDistributor q w r i) = 0"
  by (simp_all add: retryQueueStamped_def surplus_def queued_def pending_def
        NewLogDistributor_def makeChan_def)




text \<open>
  Claim C10. Every sequence of \<^verbatim>\<open>EnqueuePacket\<close> calls (of packets with any metadata),
  worker and retry-worker iterations and pool operations on a new distributor runs
  without panic; in the state it reaches, every packet placed on the retry queue (in
  its buffer, or handed to the retry worker and not yet processed) has a non-nil
  \<^verbatim>\<open>Metadata\<close> map whose \<^verbatim>\<open>"retryCount"\<close> entry holds an \<^verbatim>\<open>int\<close>, and the next iteration of
  \<^verbatim>\<open>retryWorker\<close>, with its type assertion, returns without panic.
\<close>

theorem retry_queue_always_stamped:
  "\<exists>d p'. run es (NewLogDistributor q w r i, p) = Inr (d, p')
     \<and> (\<forall>packet \<in> set (buffer (retryQueue d)) \<union> set (handedOver (retryQueue d)).
           retryStamped packet)
     \<and> (\<forall>woken rnd env waiting. \<exists>s'. retryWorkerStep woken rnd env waiting (d, p') = Inr s')"
proof -
  have "retryQueueStamped (fst (NewLogDistributor q w r i :: 'a LogDistributor, p))"
    by (simp add: New_invariants)
  from run_invariants [OF this, of es]
  obtain s' where s': "run es (NewLogDistributor q w r i, p) = Inr s'"
    "retryQueueStamped (fst s')" by blast
  obtain d p' where dp: "s' = (d, p')" by (cases s')
  have "\<exists>t. retryWorkerStep woken rnd env waiting (d, p') = Inr t" for woken rnd env waiting
    using step_invariants [OF s'(2), of "Retry woken rnd env waiting"] unfolding dp by auto
  with s' show ?thesis unfolding dp by (auto simp: retryQueueStamped_def list_all_iff)
qed

theorem retry_queue_always_stamped_witness:
  "\<not> retryStamped mistypedPacket
   \<and> \<not> isl (run failedDispatch (buffered, emptyPool))
   \<and> map retryStamped (buffer (retryQueue (fst (projr
        (run failedDispatch (buffered, emptyPool)))))) = [True]
   \<and> map retryStamped (handedOver (retryQueue (fst (projr
        (run failedDispatch (buffered, emptyPool)))))) = [True]
   \<and> \<not> isl (retryWorkerStep True 0 (SendDone (Response 200)) False
         (projr (run failedDispatch (buffered, emptyPool))))
   \<and> \<not> isl (retryWorkerStep False 0 (SendDone (Response 200)) False
         (projr (run failedDispatch (buffered, emptyPool))))"
  using retry_queue_always_stamped [of failedDispatch 1 1 3 5 emptyPool]
  by (simp add: failedDispatch_def mistypedPacket_def retryStamped_def engine_eval)

end
